theory Spec2Isabelle
  imports Main
begin

section \<open>Test helpers of ckan.new_tests.helpers\<close>

text \<open>
  A shallow embedding of \<^verbatim>\<open>src/ckan/new_tests/helpers.py\<close>: the action and auth
  invocation helpers, the configuration snapshot of the functional test base class and
  the backported form submission of webtest.
\<close>

subsection \<open>Python values, dicts and errors\<close>

text \<open>
  The Python values the helpers handle: \<^verbatim>\<open>None\<close>, booleans, strings, lists, and any
  other object (a model, a session), known by its identity. On these Python's \<^verbatim>\<open>==\<close> is
  HOL's equality. A dict with string keys is a map.
\<close>

datatype pyval = PNone | PBool bool | PStr string | PList "pyval list" | PObj string

type_synonym dict = "string \<rightharpoonup> pyval"

text \<open>
  The exceptions of the module: the \<^verbatim>\<open>ValueError\<close> of the submit helper, the failed
  assertions of the auth helper (with their messages), the \<^verbatim>\<open>AttributeError\<close> and
  \<^verbatim>\<open>KeyError\<close> of a missing attribute or key, and whatever a called function raises.
\<close>

datatype error =
    ValueError
  | AssertionError string
  | AttributeError
  | KeyError string
  | Raised string

subsection \<open>Forms of webtest\<close>

text \<open>
  A form field is an object of the webtest library. The submit helper observes three
  things of it: whether it is an instance of \<^verbatim>\<open>File\<close>, its \<^verbatim>\<open>value\<close> attribute, and the
  result of its method \<^verbatim>\<open>value_if_submitted()\<close>, which raises \<^verbatim>\<open>AttributeError\<close> on a
  field class that does not have the method.
\<close>

record field =
  is_File :: bool
  value_attr :: pyval
  value_if_submitted :: "error + pyval"

text \<open>
  The field classes of webtest as the helper sees them. A submit button reads \<^verbatim>\<open>None\<close>
  as its \<^verbatim>\<open>value\<close> and gives the value of its tag from \<^verbatim>\<open>value_if_submitted()\<close>; only
  submit buttons have that method.
\<close>

definition Submit :: "pyval \<Rightarrow> field" where
  "Submit v = \<lparr>is_File = False, value_attr = PNone, value_if_submitted = Inr v\<rparr>"

definition Plain :: "pyval \<Rightarrow> field" where
  "Plain v = \<lparr>is_File = False, value_attr = v, value_if_submitted = Inl AttributeError\<rparr>"

definition File :: "pyval \<Rightarrow> field" where
  "File v = \<lparr>is_File = True, value_attr = v, value_if_submitted = Inl AttributeError\<rparr>"

definition is_submit_button :: "field \<Rightarrow> bool" where
  "is_submit_button f =
     (\<not> is_File f \<and> value_attr f = PNone \<and>
      (case value_if_submitted f of Inl _ \<Rightarrow> False | Inr _ \<Rightarrow> True))"

text \<open>
  The form: \<^verbatim>\<open>form.field_order\<close> is the list of (name, field) pairs in declaration order;
  a name may be \<^verbatim>\<open>None\<close>.
\<close>

record form =
  field_order :: "(string option \<times> field) list"

text \<open>
  An element of the list the helper returns: the name with a value, or, for a file
  upload, the name with the field object itself.
\<close>

datatype item = Val pyval | FieldObj field

type_synonym entry = "string \<times> item"

subsection \<open>webtest_submit_fields\<close>

text \<open>
  The branch of the loop body for a field whose name is the submit name. It appends
  to \<^verbatim>\<open>submit\<close> and leaves the counting to the caller.
\<close>

definition submit_branch ::
  "int option \<Rightarrow> pyval \<Rightarrow> int \<Rightarrow> string \<Rightarrow> field \<Rightarrow> entry list \<Rightarrow> error + entry list" where
  "submit_branch index submit_value current_index name field submit =
     (case (if index \<noteq> None \<and> Some current_index = index
            then (case value_if_submitted field of
                    Inl e \<Rightarrow> Inl e
                  | Inr v \<Rightarrow> Inr (submit @ [(name, Val v)]))
            else Inr submit) of
        Inl e \<Rightarrow> Inl e
      | Inr submit1 \<Rightarrow>
          (if submit_value \<noteq> PNone
           then (case value_if_submitted field of
                   Inl e \<Rightarrow> Inl e
                 | Inr v \<Rightarrow>
                     (if v = submit_value
                      then (case value_if_submitted field of
                              Inl e \<Rightarrow> Inl e
                            | Inr v' \<Rightarrow> Inr (submit1 @ [(name, Val v')]))
                      else Inr submit1))
           else Inr submit1))"

text \<open>The other branch: what a field appends from its \<^verbatim>\<open>value\<close>.\<close>

definition other_branch :: "string \<Rightarrow> field \<Rightarrow> entry list \<Rightarrow> entry list" where
  "other_branch name field submit =
     (let value = value_attr field in
      if value = PNone then submit
      else if is_File field then submit @ [(name, FieldObj field)]
      else (case value of
              PList items \<Rightarrow> submit @ map (\<lambda>item. (name, Val item)) items
            | _ \<Rightarrow> submit @ [(name, Val value)]))"

text \<open>
  The loop over \<^verbatim>\<open>form.field_order\<close>, with the loop state \<^verbatim>\<open>current_index\<close> and
  \<^verbatim>\<open>submit\<close>; an exception ends it.
\<close>

fun submit_loop ::
  "string option \<Rightarrow> int option \<Rightarrow> pyval \<Rightarrow> (string option \<times> field) list \<Rightarrow>
   int \<Rightarrow> entry list \<Rightarrow> error + entry list" where
  "submit_loop submit_name index submit_value [] current_index submit = Inr submit"
| "submit_loop submit_name index submit_value ((name, field) # rest) current_index submit =
     (case name of
        None \<Rightarrow> submit_loop submit_name index submit_value rest current_index submit
      | Some n \<Rightarrow>
          (if submit_name \<noteq> None \<and> name = submit_name
           then (case submit_branch index submit_value current_index n field submit of
                   Inl e \<Rightarrow> Inl e
                 | Inr submit' \<Rightarrow>
                     submit_loop submit_name index submit_value rest (current_index + 1) submit')
           else submit_loop submit_name index submit_value rest current_index
                  (other_branch n field submit)))"

definition webtest_submit_fields ::
  "form \<Rightarrow> string option \<Rightarrow> int option \<Rightarrow> pyval \<Rightarrow> error + entry list" where
  "webtest_submit_fields form name index submit_value =
     (if index \<noteq> None \<and> submit_value \<noteq> PNone then Inl ValueError
      else
        (let index = (if index = None \<and> submit_value = PNone then Some 0 else index)
         in submit_loop name index submit_value (field_order form) 0 []))"

subsection \<open>call_action and call_auth\<close>

text \<open>
  An action or auth function of CKAN is called with the context dict and the data dict.
  It returns or raises, and, since it is handed the context object itself, it leaves that
  dict in some state: the second component of its result.
\<close>

type_synonym 'r logic_function = "dict \<Rightarrow> dict \<Rightarrow> (error + 'r) \<times> dict"

text \<open>\<^verbatim>\<open>dict.setdefault\<close>: the key is set only when it is absent.\<close>

definition setdefault :: "dict \<Rightarrow> string \<Rightarrow> pyval \<Rightarrow> dict" where
  "setdefault d k v = (case d k of None \<Rightarrow> d(k \<mapsto> v) | Some _ \<Rightarrow> d)"

text \<open>
  \<^verbatim>\<open>call_action\<close>. \<^verbatim>\<open>logic.get_action\<close> is a parameter: it finds the action of a name or
  raises. The context is \<^verbatim>\<open>None\<close> or the caller's dict, which the two \<^verbatim>\<open>setdefault\<close>
  calls and the action change in place: the second component of the result is the
  caller's dict after the call (\<open>None\<close> when the caller passed none, the fresh dict being
  out of reach).
\<close>

definition call_action ::
  "(string \<Rightarrow> error + 'r logic_function) \<Rightarrow> string \<Rightarrow> dict option \<Rightarrow> dict \<Rightarrow>
   (error + 'r) \<times> dict option" where
  "call_action get_action action_name context kwargs =
     (let ctx0 = (case context of None \<Rightarrow> Map.empty | Some c \<Rightarrow> c);
          ctx1 = setdefault ctx0 ''user'' (PStr ''127.0.0.1'');
          ctx2 = setdefault ctx1 ''ignore_auth'' (PBool True)
      in case get_action action_name of
           Inl e \<Rightarrow> (Inl e, map_option (\<lambda>_. ctx2) context)
         | Inr action \<Rightarrow>
             (case action ctx2 kwargs of
                (result, ctx3) \<Rightarrow> (result, map_option (\<lambda>_. ctx3) context)))"

text \<open>
  \<^verbatim>\<open>call_auth\<close>. The module \<^verbatim>\<open>ckan.logic.auth.update\<close> is a parameter, a map from attribute
  names to auth functions; \<^verbatim>\<open>__getattribute__\<close> raises \<^verbatim>\<open>AttributeError\<close> on a name it does not
  have. The two assertions come first.
\<close>

definition call_auth ::
  "(string \<rightharpoonup> 'r logic_function) \<Rightarrow> string \<Rightarrow> dict \<Rightarrow> dict \<Rightarrow> (error + 'r) \<times> dict" where
  "call_auth auth_update auth_name context kwargs =
     (if context ''user'' = None
      then (Inl (AssertionError ''Test methods must put a user name in the context dict''),
            context)
      else if context ''model'' = None
      then (Inl (AssertionError ''Test methods must put a model in the context dict''),
            context)
      else (case auth_update auth_name of
              None \<Rightarrow> (Inl AttributeError, context)
            | Some auth_function \<Rightarrow> auth_function context kwargs))"

subsection \<open>The functional test base class\<close>

text \<open>
  The state the class works on: the process-wide \<^verbatim>\<open>pylons.config\<close> mapping, and the class
  attributes \<^verbatim>\<open>original_config\<close> and \<^verbatim>\<open>app\<close>, unset before \<^verbatim>\<open>setup_class\<close>.
\<close>

record 'a test_world =
  config :: dict
  original_config :: "dict option"
  app :: "'a option"

text \<open>
  \<^verbatim>\<open>_get_test_app\<close>. \<^verbatim>\<open>make_app\<close> and \<^verbatim>\<open>webtest.TestApp\<close> are parameters; \<^verbatim>\<open>make_app\<close> gets
  \<^verbatim>\<open>config['global_conf']\<close> and the items of the configuration, and leaves the configuration
  in some state. A configuration without \<^verbatim>\<open>global_conf\<close> raises \<^verbatim>\<open>KeyError\<close>.
\<close>

definition get_test_app ::
  "(pyval \<Rightarrow> dict \<Rightarrow> (error + 'b) \<times> dict) \<Rightarrow> ('b \<Rightarrow> 'a) \<Rightarrow> dict \<Rightarrow> (error + 'a) \<times> dict" where
  "get_test_app make_app TestApp cfg =
     (let cfg1 = cfg(''ckan.legacy_templates'' \<mapsto> PBool False)
      in case cfg1 ''global_conf'' of
           None \<Rightarrow> (Inl (KeyError ''global_conf''), cfg1)
         | Some global_conf \<Rightarrow>
             (case make_app global_conf cfg1 of
                (Inl e, cfg2) \<Rightarrow> (Inl e, cfg2)
              | (Inr a, cfg2) \<Rightarrow> (Inr (TestApp a), cfg2)))"

text \<open>
  \<^verbatim>\<open>setup_class\<close>: the snapshot \<^verbatim>\<open>config.copy()\<close>, then \<^verbatim>\<open>_apply_config_changes\<close> (a parameter,
  since subclasses override it; the base class passes), then the test application.
\<close>

definition setup_class ::
  "(dict \<Rightarrow> (error + unit) \<times> dict) \<Rightarrow> (pyval \<Rightarrow> dict \<Rightarrow> (error + 'b) \<times> dict) \<Rightarrow>
   ('b \<Rightarrow> 'a) \<Rightarrow> 'a test_world \<Rightarrow> (error + unit) \<times> 'a test_world" where
  "setup_class apply_config_changes make_app TestApp w =
     (let w1 = w\<lparr>original_config := Some (config w)\<rparr>
      in case apply_config_changes (config w1) of
           (Inl e, cfg) \<Rightarrow> (Inl e, w1\<lparr>config := cfg\<rparr>)
         | (Inr _, cfg) \<Rightarrow>
             (case get_test_app make_app TestApp cfg of
                (Inl e, cfg') \<Rightarrow> (Inl e, w1\<lparr>config := cfg'\<rparr>)
              | (Inr a, cfg') \<Rightarrow> (Inr (), w1\<lparr>config := cfg', app := Some a\<rparr>)))"

text \<open>\<^verbatim>\<open>teardown_class\<close>: \<^verbatim>\<open>config.clear()\<close>, then \<^verbatim>\<open>config.update(cls.original_config)\<close>.\<close>

definition teardown_class :: "'a test_world \<Rightarrow> (error + unit) \<times> 'a test_world" where
  "teardown_class w =
     (let w1 = w\<lparr>config := Map.empty\<rparr>
      in case original_config w1 of
           None \<Rightarrow> (Inl AttributeError, w1)
         | Some original \<Rightarrow> (Inr (), w1\<lparr>config := config w1 ++ original\<rparr>))"

text \<open>
  What the tests of a class may do to the configuration between setup and teardown:
  set a key, delete a key (a missing key raises and leaves the mapping as it is), clear
  the mapping, update it from a list of items.
\<close>

datatype config_op = SetItem string pyval | DelItem string | Clear | Update "(string \<times> pyval) list"

fun apply_config_op :: "config_op \<Rightarrow> dict \<Rightarrow> dict" where
  "apply_config_op (SetItem k v) cfg = cfg(k \<mapsto> v)"
| "apply_config_op (DelItem k) cfg = cfg(k := None)"
| "apply_config_op Clear cfg = Map.empty"
| "apply_config_op (Update kvs) cfg = cfg ++ map_of (rev kvs)"

definition mutate_config :: "config_op list \<Rightarrow> 'a test_world \<Rightarrow> 'a test_world" where
  "mutate_config ops w = w\<lparr>config := foldl (\<lambda>cfg op. apply_config_op op cfg) (config w) ops\<rparr>"

subsection \<open>Notions the properties are stated with\<close>

text \<open>
  What a field outside the submit branch adds to the output, in the spec's words:
  nothing when its value is \<^verbatim>\<open>None\<close>, the field itself when it is a file upload, one entry
  for each element of a list value, one entry otherwise.
\<close>

definition nonsubmit_entries :: "string \<Rightarrow> field \<Rightarrow> entry list" where
  "nonsubmit_entries name field =
     (if value_attr field = PNone then []
      else if is_File field then [(name, FieldObj field)]
      else (case value_attr field of
              PList items \<Rightarrow> map (\<lambda>item. (name, Val item)) items
            | v \<Rightarrow> [(name, Val v)]))"

text \<open>The entries of a form when no field is treated as a submit button.\<close>

definition plain_entries :: "(string option \<times> field) list \<Rightarrow> entry list" where
  "plain_entries fs =
     concat (map (\<lambda>(n, f). case n of None \<Rightarrow> [] | Some m \<Rightarrow> nonsubmit_entries m f) fs)"

text \<open>
  The fields of a given name, in declaration order, and the value a submit button
  submits.
\<close>

definition same_named :: "string \<Rightarrow> (string option \<times> field) list \<Rightarrow> field list" where
  "same_named name fs = map snd (filter (\<lambda>(n, f). n = Some name) fs)"

definition button_value :: "field \<Rightarrow> pyval" where
  "button_value f = (case value_if_submitted f of Inl _ \<Rightarrow> PNone | Inr v \<Rightarrow> v)"

text \<open>
  The entries of a walk that returns, with the choice of the button left open: \<open>sel\<close>
  decides from the position among the fields of the submit name and from the value that
  \<^verbatim>\<open>value_if_submitted()\<close> gives. A field of the submit name adds that value when it is
  chosen and nothing otherwise, whatever its own \<^verbatim>\<open>value\<close> is; a field of that name without
  the method adds nothing (the walk raises when it asks for its value).
\<close>

fun collect ::
  "string \<Rightarrow> (int \<Rightarrow> pyval \<Rightarrow> bool) \<Rightarrow> (string option \<times> field) list \<Rightarrow> int \<Rightarrow> entry list" where
  "collect name sel [] ci = []"
| "collect name sel ((n, f) # rest) ci =
     (case n of
        None \<Rightarrow> collect name sel rest ci
      | Some m \<Rightarrow>
          (if m = name
           then (case value_if_submitted f of
                   Inl _ \<Rightarrow> []
                 | Inr v \<Rightarrow> (if sel ci v then [(m, Val v)] else [])) @
                collect name sel rest (ci + 1)
           else nonsubmit_entries m f @ collect name sel rest ci))"

text \<open>The context that \<^verbatim>\<open>call_action\<close> hands to the action.\<close>

definition action_context :: "dict option \<Rightarrow> dict" where
  "action_context context =
     setdefault (setdefault (case context of None \<Rightarrow> Map.empty | Some c \<Rightarrow> c)
       ''user'' (PStr ''127.0.0.1'')) ''ignore_auth'' (PBool True)"

subsection \<open>Example inputs\<close>

definition two_save_buttons :: form where
  "two_save_buttons =
     \<lparr>field_order = [(Some ''title'', Plain (PStr ''t'')),
                     (Some ''save'', Submit (PStr ''a'')),
                     (Some ''save'', Submit PNone)]\<rparr>"

definition edit_form :: form where
  "edit_form =
     \<lparr>field_order = [(Some ''title'', Plain (PStr ''t'')),
                     (Some ''tags'', Plain (PList [PStr ''a'', PStr ''b''])),
                     (None, Plain (PStr ''x'')),
                     (Some ''upload'', File (PStr ''f.txt'')),
                     (Some ''notes'', Plain PNone),
                     (Some ''save'', Submit (PStr ''Save'')),
                     (Some ''save'', Submit (PStr ''Cancel''))]\<rparr>"

definition choice_form :: form where
  "choice_form =
     \<lparr>field_order = [(Some ''choice'', Submit (PStr ''Go'')),
                     (Some ''choice'', Plain (PStr ''x''))]\<rparr>"

definition drop_user :: "string \<Rightarrow> error + bool logic_function" where
  "drop_user action_name =
     Inr (\<lambda>context data_dict. (Inr True, context(''user'' := None)))"

definition show_user :: "string \<Rightarrow> error + (pyval option \<times> pyval option) logic_function" where
  "show_user action_name =
     (if action_name = ''user_show''
      then Inr (\<lambda>context data_dict.
             (Inr (context ''user'', context ''model''), context(''session'' \<mapsto> PBool True)))
      else Inl (KeyError action_name))"

definition allow_all :: "string \<rightharpoonup> bool logic_function" where
  "allow_all = [''user_update'' \<mapsto> (\<lambda>context data_dict. (Inr True, context))]"

section \<open>Lemmas on the loop\<close>

lemma other_branch_append: "other_branch n f acc = acc @ nonsubmit_entries n f"
  by (simp add: other_branch_def nonsubmit_entries_def Let_def split: pyval.splits)


lemma same_named_Cons:
  "same_named name ((n, f) # rest) =
     (if n = Some name then f # same_named name rest else same_named name rest)"
  by (simp add: same_named_def)

lemma same_named_Nil: "same_named name [] = []"
  by (simp add: same_named_def)

lemma submit_button_value:
  "is_submit_button f \<Longrightarrow> \<exists>v. value_if_submitted f = Inr v"
  by (auto simp: is_submit_button_def split: sum.splits)

lemma submit_button_value_eq:
  "is_submit_button f \<Longrightarrow> value_if_submitted f = Inr (button_value f)"
  by (auto simp: is_submit_button_def button_value_def split: sum.splits)

lemma loop_by_index:
  "\<forall>f \<in> set (same_named name fs). is_submit_button f \<Longrightarrow>
   submit_loop (Some name) (Some i) PNone fs ci acc =
     Inr (acc @ collect name (\<lambda>c v. c = i) fs ci)"
proof (induction fs arbitrary: ci acc)
  case Nil
  show ?case by simp
next
  case (Cons p rest)
  obtain n f where p: "p = (n, f)" by (cases p)
  show ?case
  proof (cases "n = Some name")
    case True
    with Cons.prems p have "is_submit_button f"
      and rest: "\<forall>g \<in> set (same_named name rest). is_submit_button g"
      by (simp_all add: same_named_Cons)
    then obtain v where v: "value_if_submitted f = Inr v"
      using submit_button_value by blast
    show ?thesis
      using True p v Cons.IH [OF rest]
      by (simp add: submit_branch_def)
  next
    case False
    with Cons.prems p have rest: "\<forall>g \<in> set (same_named name rest). is_submit_button g"
      by (simp add: same_named_Cons)
    show ?thesis
      using False p Cons.IH [OF rest]
      by (cases n) (simp_all add: other_branch_append)
  qed
qed

lemma loop_by_value:
  "sv \<noteq> PNone \<Longrightarrow> \<forall>f \<in> set (same_named name fs). is_submit_button f \<Longrightarrow>
   submit_loop (Some name) None sv fs ci acc =
     Inr (acc @ collect name (\<lambda>c v. v = sv) fs ci)"
proof (induction fs arbitrary: ci acc)
  case Nil
  show ?case by simp
next
  case (Cons p rest)
  obtain n f where p: "p = (n, f)" by (cases p)
  show ?case
  proof (cases "n = Some name")
    case True
    with Cons.prems p have "is_submit_button f"
      and rest: "\<forall>g \<in> set (same_named name rest). is_submit_button g"
      by (simp_all add: same_named_Cons)
    then obtain v where v: "value_if_submitted f = Inr v"
      using submit_button_value by blast
    show ?thesis
      using True p v Cons.prems(1) Cons.IH [OF Cons.prems(1) rest]
      by (simp add: submit_branch_def)
  next
    case False
    with Cons.prems p have rest: "\<forall>g \<in> set (same_named name rest). is_submit_button g"
      by (simp add: same_named_Cons)
    show ?thesis
      using False p Cons.IH [OF Cons.prems(1) rest]
      by (cases n) (simp_all add: other_branch_append)
  qed
qed

lemma nonsubmit_entries_keys: "e \<in> set (nonsubmit_entries m f) \<Longrightarrow> fst e = m"
  by (auto simp: nonsubmit_entries_def split: if_splits pyval.splits)

lemma filter_nonsubmit_entries:
  "m \<noteq> name \<Longrightarrow> filter (\<lambda>e. fst e = name) (nonsubmit_entries m f) = []"
  by (auto simp: filter_empty_conv dest: nonsubmit_entries_keys)

lemma filter_nonsubmit_entries_other:
  "filter (\<lambda>e. Some (fst e) \<noteq> sn) (nonsubmit_entries m f) =
     (if sn = Some m then [] else nonsubmit_entries m f)"
proof (cases "sn = Some m")
  case True
  then show ?thesis
    by (auto simp: filter_empty_conv dest: nonsubmit_entries_keys)
next
  case False
  then have "\<forall>e \<in> set (nonsubmit_entries m f). Some (fst e) \<noteq> sn"
    by (auto dest: nonsubmit_entries_keys)
  with False show ?thesis by (simp add: filter_id_conv)
qed

lemma collect_index_named:
  "\<forall>f \<in> set (same_named name fs). is_submit_button f \<Longrightarrow>
   filter (\<lambda>e. fst e = name) (collect name (\<lambda>c v. c = i) fs ci) =
     (if ci \<le> i \<and> nat (i - ci) < length (same_named name fs)
      then [(name, Val (button_value (same_named name fs ! nat (i - ci))))]
      else [])"
proof (induction fs arbitrary: ci)
  case Nil
  show ?case by (simp add: same_named_Nil)
next
  case (Cons p rest)
  obtain n f where p: "p = (n, f)" by (cases p)
  show ?case
  proof (cases "n = Some name")
    case True
    with Cons.prems p have "is_submit_button f"
      and rest: "\<forall>g \<in> set (same_named name rest). is_submit_button g"
      by (simp_all add: same_named_Cons)
    then obtain v where "value_if_submitted f = Inr v"
      using submit_button_value by blast
    then have v: "value_if_submitted f = Inr v" "button_value f = v"
      by (simp_all add: button_value_def)
    note IH = Cons.IH [OF rest, of "ci + 1"]
    show ?thesis
    proof (cases "ci = i")
      case eq: True
      with True p v IH show ?thesis by (simp add: same_named_Cons)
    next
      case neq: False
      show ?thesis
      proof (cases "ci < i")
        case lt: True
        then have "nat (i - ci) = Suc (nat (i - (ci + 1)))" by simp
        with True p v IH neq lt show ?thesis by (simp add: same_named_Cons)
      next
        case False
        with True p v IH neq show ?thesis by (simp add: same_named_Cons)
      qed
    qed
  next
    case False
    with Cons.prems p have rest: "\<forall>g \<in> set (same_named name rest). is_submit_button g"
      by (simp add: same_named_Cons)
    show ?thesis
      using False p Cons.IH [OF rest, of ci]
      by (cases n) (simp_all add: same_named_Cons filter_nonsubmit_entries)
  qed
qed

lemma collect_index_named_from_zero:
  "\<forall>f \<in> set (same_named name fs). is_submit_button f \<Longrightarrow>
   filter (\<lambda>e. fst e = name) (collect name (\<lambda>c v. c = i) fs 0) =
     (if 0 \<le> i \<and> nat i < length (same_named name fs)
      then [(name, Val (button_value (same_named name fs ! nat i)))]
      else [])"
  using collect_index_named [of name fs i 0]
  by simp

lemma collect_cong:
  "(\<And>j v. j < length (same_named name fs) \<Longrightarrow>
       value_if_submitted (same_named name fs ! j) = Inr v \<Longrightarrow>
       sel1 (ci + int j) v = sel2 (ci + int j) v) \<Longrightarrow>
   collect name sel1 fs ci = collect name sel2 fs ci"
proof (induction fs arbitrary: ci)
  case Nil
  show ?case by simp
next
  case (Cons p rest)
  obtain n f where p: "p = (n, f)" by (cases p)
  show ?case
  proof (cases "n = Some name")
    case True
    have head: "\<And>v. value_if_submitted f = Inr v \<Longrightarrow> sel1 ci v = sel2 ci v"
      using Cons.prems [of 0] True p by (simp add: same_named_Cons)
    have "collect name sel1 rest (ci + 1) = collect name sel2 rest (ci + 1)"
    proof (rule Cons.IH)
      fix j v
      assume "j < length (same_named name rest)"
        and "value_if_submitted (same_named name rest ! j) = Inr v"
      then have "sel1 (ci + int (Suc j)) v = sel2 (ci + int (Suc j)) v"
        using Cons.prems [of "Suc j" v] True p
        by (simp add: same_named_Cons del: of_nat_Suc)
      moreover have "ci + int (Suc j) = ci + 1 + int j" by simp
      ultimately show "sel1 (ci + 1 + int j) v = sel2 (ci + 1 + int j) v"
        by (simp only:)
    qed
    with True p head show ?thesis by (simp split: sum.splits)
  next
    case False
    have "collect name sel1 rest ci = collect name sel2 rest ci"
    proof (rule Cons.IH)
      fix j v
      assume "j < length (same_named name rest)"
        and "value_if_submitted (same_named name rest ! j) = Inr v"
      then show "sel1 (ci + int j) v = sel2 (ci + int j) v"
        using Cons.prems [of j v] False p by (simp add: same_named_Cons)
    qed
    with False p show ?thesis by (cases n) simp_all
  qed
qed

lemma submit_branch_keeps_others:
  "submit_branch idx sv ci n f acc = Inr acc' \<Longrightarrow>
   filter (\<lambda>e. fst e \<noteq> n) acc' = filter (\<lambda>e. fst e \<noteq> n) acc"
  by (auto simp: submit_branch_def split: if_splits sum.splits)

lemma loop_other_entries:
  "submit_loop sn idx sv fs ci acc = Inr out \<Longrightarrow>
   filter (\<lambda>e. Some (fst e) \<noteq> sn) out =
     filter (\<lambda>e. Some (fst e) \<noteq> sn) acc @
     concat (map (\<lambda>(n, f). case n of None \<Rightarrow> []
                  | Some m \<Rightarrow> if sn = Some m then [] else nonsubmit_entries m f) fs)"
proof (induction fs arbitrary: ci acc)
  case Nil
  then show ?case by simp
next
  case (Cons p rest)
  obtain n f where p: "p = (n, f)" by (cases p)
  show ?case
  proof (cases n)
    case None
    with Cons p show ?thesis by simp
  next
    case (Some m)
    show ?thesis
    proof (cases "sn = Some m")
      case True
      with Cons.prems p Some obtain acc' where
        br: "submit_branch idx sv ci m f acc = Inr acc'" and
        run: "submit_loop sn idx sv rest (ci + 1) acc' = Inr out"
        by (auto split: sum.splits)
      from submit_branch_keeps_others [OF br] True
      have "filter (\<lambda>e. Some (fst e) \<noteq> sn) acc' = filter (\<lambda>e. Some (fst e) \<noteq> sn) acc"
        by simp
      with Cons.IH [OF run] True p Some show ?thesis by simp
    next
      case False
      with Cons.prems p Some
      have run: "submit_loop sn idx sv rest ci (acc @ nonsubmit_entries m f) = Inr out"
        by (auto simp: other_branch_append)
      from Cons.IH [OF run] False p Some show ?thesis
        by (simp add: filter_nonsubmit_entries_other)
    qed
  qed
qed

lemma submit_branch_result:
  "submit_branch idx sv ci n f acc = Inr acc' \<Longrightarrow> idx = None \<or> sv = PNone \<Longrightarrow>
   acc' = acc @ (case value_if_submitted f of
                   Inl _ \<Rightarrow> []
                 | Inr v \<Rightarrow> (if idx = Some ci \<or> (sv \<noteq> PNone \<and> v = sv)
                             then [(n, Val v)] else []))"
  by (auto simp: submit_branch_def split: if_splits sum.splits)

lemma loop_collect:
  "submit_loop (Some name) idx sv fs ci acc = Inr out \<Longrightarrow> idx = None \<or> sv = PNone \<Longrightarrow>
   out = acc @ collect name (\<lambda>c v. idx = Some c \<or> (sv \<noteq> PNone \<and> v = sv)) fs ci"
proof (induction fs arbitrary: ci acc)
  case Nil
  then show ?case by simp
next
  case (Cons p rest)
  obtain n f where p: "p = (n, f)" by (cases p)
  show ?case
  proof (cases n)
    case None
    with Cons p show ?thesis by simp
  next
    case (Some m)
    show ?thesis
    proof (cases "m = name")
      case True
      with Cons.prems(1) p Some obtain acc' where
        br: "submit_branch idx sv ci name f acc = Inr acc'" and
        run: "submit_loop (Some name) idx sv rest (ci + 1) acc' = Inr out"
        by (auto split: sum.splits)
      from Cons.IH [OF run Cons.prems(2)] submit_branch_result [OF br Cons.prems(2)]
      show ?thesis using True p Some by (simp split: sum.splits)
    next
      case False
      with Cons.prems(1) p Some
      have run: "submit_loop (Some name) idx sv rest ci (acc @ nonsubmit_entries m f) = Inr out"
        by (simp add: other_branch_append)
      from Cons.IH [OF run Cons.prems(2)] False p Some show ?thesis by simp
    qed
  qed
qed

lemma collect_named_entries:
  "e \<in> set (collect name sel fs ci) \<Longrightarrow> fst e = name \<Longrightarrow>
   \<exists>f \<in> set (same_named name fs). \<exists>v. value_if_submitted f = Inr v \<and> snd e = Val v"
proof (induction fs arbitrary: ci)
  case Nil
  then show ?case by simp
next
  case (Cons p rest)
  obtain n f where p: "p = (n, f)" by (cases p)
  show ?case
  proof (cases n)
    case None
    with Cons p show ?thesis by (auto simp: same_named_Cons)
  next
    case (Some m)
    show ?thesis
    proof (cases "m = name")
      case True
      from Cons.prems(1) True p Some
      consider (here) v where "value_if_submitted f = Inr v" "e = (name, Val v)"
        | (later) "e \<in> set (collect name sel rest (ci + 1))"
        by (cases "value_if_submitted f") (auto split: if_splits)
      then show ?thesis
      proof cases
        case here
        with True p Some show ?thesis by (auto simp: same_named_Cons)
      next
        case later
        from Cons.IH [OF later Cons.prems(2)] True p Some show ?thesis
          by (auto simp: same_named_Cons)
      qed
    next
      case False
      from Cons.prems False p Some have "e \<in> set (collect name sel rest ci)"
        by (auto dest: nonsubmit_entries_keys)
      from Cons.IH [OF this Cons.prems(2)] False p Some show ?thesis
        by (auto simp: same_named_Cons)
    qed
  qed
qed


lemma loop_without_name:
  "submit_loop None idx sv fs ci acc = Inr (acc @ plain_entries fs)"
  by (induction fs arbitrary: ci acc)
     (auto simp: plain_entries_def other_branch_append split: option.splits)

lemma plain_entries_drop_buttons:
  "plain_entries (filter (\<lambda>(n, f). \<not> is_submit_button f) fs) = plain_entries fs"
  by (induction fs)
     (auto simp: plain_entries_def nonsubmit_entries_def is_submit_button_def
           split: option.splits)

section \<open>Lemmas on the helpers and the configuration\<close>

lemma setdefault_apply:
  "setdefault d k v k' = (if k' = k then Some (case d k of None \<Rightarrow> v | Some u \<Rightarrow> u) else d k')"
  by (simp add: setdefault_def split: option.splits)

lemma call_action_unfold:
  "call_action get_action action_name context kwargs =
     (case get_action action_name of
        Inl e \<Rightarrow> (Inl e, map_option (\<lambda>_. action_context context) context)
      | Inr action \<Rightarrow>
          (fst (action (action_context context) kwargs),
           map_option (\<lambda>_. snd (action (action_context context) kwargs)) context))"
  by (simp add: call_action_def action_context_def Let_def split: sum.splits prod.splits)

lemma action_context_apply:
  "action_context context k =
     (if k = ''user''
      then Some (case (case context of None \<Rightarrow> Map.empty | Some c \<Rightarrow> c) ''user'' of
                   None \<Rightarrow> PStr ''127.0.0.1'' | Some u \<Rightarrow> u)
      else if k = ''ignore_auth''
      then Some (case (case context of None \<Rightarrow> Map.empty | Some c \<Rightarrow> c) ''ignore_auth'' of
                   None \<Rightarrow> PBool True | Some b \<Rightarrow> b)
      else (case context of None \<Rightarrow> Map.empty | Some c \<Rightarrow> c) k)"
  by (simp add: action_context_def setdefault_apply)

lemma setup_class_snapshot:
  "original_config (snd (setup_class acc mk ta w)) = Some (config w)"
  by (simp add: setup_class_def Let_def split: prod.splits sum.splits)

lemma mutate_config_snapshot:
  "original_config (mutate_config ops w) = original_config w"
  by (simp add: mutate_config_def)

section \<open>Properties\<close>

subsection \<open>Selecting a submit button\<close>

text \<open>
  C1. On a form whose fields of the submit name are submit buttons with pairwise
  distinct values, \<^verbatim>\<open>webtest_submit_fields\<close> with that name and an index \<open>i\<close> returns a
  list whose entries of that name are exactly the entry of the \<open>i\<close>-th field of that
  name, counted from zero in declaration order (none when there is no such field), and
  that has no entry of any other button of that name.
\<close>

theorem submit_fields_by_index:
  assumes buttons: "\<forall>f \<in> set (same_named name (field_order form)). is_submit_button f"
    and dist: "distinct (map button_value (same_named name (field_order form)))"
  shows "\<exists>out. webtest_submit_fields form (Some name) (Some i) PNone = Inr out \<and>
           filter (\<lambda>e. fst e = name) out =
             (if 0 \<le> i \<and> nat i < length (same_named name (field_order form))
              then [(name, Val (button_value (same_named name (field_order form) ! nat i)))]
              else []) \<and>
           (\<forall>j < length (same_named name (field_order form)).
              int j \<noteq> i \<longrightarrow>
              (name, Val (button_value (same_named name (field_order form) ! j))) \<notin> set out)"
proof -
  let ?same = "same_named name (field_order form)"
  let ?out = "collect name (\<lambda>c v. c = i) (field_order form) 0"
  have run: "webtest_submit_fields form (Some name) (Some i) PNone = Inr ?out"
    using loop_by_index [OF buttons, of i 0 "[]"]
    by (simp add: webtest_submit_fields_def)
  have named: "filter (\<lambda>e. fst e = name) ?out =
      (if 0 \<le> i \<and> nat i < length ?same
       then [(name, Val (button_value (?same ! nat i)))] else [])"
    by (rule collect_index_named_from_zero [OF buttons])
  have others: "(name, Val (button_value (?same ! j))) \<notin> set ?out"
    if j: "j < length ?same" and ne: "int j \<noteq> i" for j
  proof
    assume "(name, Val (button_value (?same ! j))) \<in> set ?out"
    then have mem: "(name, Val (button_value (?same ! j))) \<in> set (filter (\<lambda>e. fst e = name) ?out)"
      by simp
    show False
    proof (cases "0 \<le> i \<and> nat i < length ?same")
      case True
      with mem named have "button_value (?same ! j) = button_value (?same ! nat i)"
        by simp
      then have "map button_value ?same ! j = map button_value ?same ! nat i"
        using j True by simp
      then have "j = nat i"
        using nth_eq_iff_index_eq [OF dist, of j "nat i"] j True by simp
      with True ne show False by simp
    next
      case False
      with mem named show False by simp
    qed
  qed
  from run named others show ?thesis by blast
qed

theorem submit_fields_by_index_witness:
  "list_all is_submit_button (same_named ''save'' (field_order edit_form)) \<and>
   distinct (map button_value (same_named ''save'' (field_order edit_form))) \<and>
   (\<exists>out. webtest_submit_fields edit_form (Some ''save'') (Some 1) PNone = Inr out \<and>
      filter (\<lambda>e. fst e = ''save'') out = [(''save'', Val (PStr ''Cancel''))] \<and>
      (''save'', Val (PStr ''Save'')) \<notin> set out)"
proof -
  have s: "same_named ''save'' (field_order edit_form) =
      [Submit (PStr ''Save''), Submit (PStr ''Cancel'')]"
    by (simp add: edit_form_def same_named_def)
  have b: "\<forall>f \<in> set (same_named ''save'' (field_order edit_form)). is_submit_button f"
    by (simp add: s is_submit_button_def Submit_def)
  have d: "distinct (map button_value (same_named ''save'' (field_order edit_form)))"
    by (simp add: s button_value_def Submit_def)
  from submit_fields_by_index [OF b d, of 1]
  obtain out where "webtest_submit_fields edit_form (Some ''save'') (Some 1) PNone = Inr out"
    and "filter (\<lambda>e. fst e = ''save'') out = [(''save'', Val (PStr ''Cancel''))]"
    and "\<forall>j < 2. int j \<noteq> 1 \<longrightarrow>
           (''save'', Val (button_value ([Submit (PStr ''Save''), Submit (PStr ''Cancel'')] ! j)))
             \<notin> set out"
    by (auto simp: s button_value_def Submit_def)
  moreover from this(3) have "(''save'', Val (PStr ''Save'')) \<notin> set out"
    by (auto simp: button_value_def Submit_def dest: spec [of _ 0])
  ultimately show ?thesis using b d by (auto simp: list_all_iff)
qed

text \<open>
  C2, as amended. On a form whose fields of the submit name are all submit buttons
  with pairwise distinct values, when the \<open>i\<close>-th field of the name exists and its value
  is not \<^verbatim>\<open>None\<close>, selecting by that value gives the same result as selecting by the index
  \<open>i\<close>.
\<close>

theorem submit_fields_by_value_eq_by_index:
  assumes buttons: "\<forall>f \<in> set (same_named name (field_order form)). is_submit_button f"
    and dist: "distinct (map button_value (same_named name (field_order form)))"
    and lo: "0 \<le> i" and hi: "nat i < length (same_named name (field_order form))"
    and given: "button_value (same_named name (field_order form) ! nat i) \<noteq> PNone"
  shows "webtest_submit_fields form (Some name) None
           (button_value (same_named name (field_order form) ! nat i)) =
         webtest_submit_fields form (Some name) (Some i) PNone"
proof -
  let ?same = "same_named name (field_order form)"
  let ?sv = "button_value (?same ! nat i)"
  have "collect name (\<lambda>c v. v = ?sv) (field_order form) 0 =
        collect name (\<lambda>c v. c = i) (field_order form) 0"
  proof (rule collect_cong)
    fix j v
    assume j: "j < length ?same" and v: "value_if_submitted (?same ! j) = Inr v"
    then have vj: "v = button_value (?same ! j)"
      by (simp add: button_value_def)
    have "(button_value (?same ! j) = ?sv) = (j = nat i)"
    proof
      assume "button_value (?same ! j) = ?sv"
      then have "map button_value ?same ! j = map button_value ?same ! nat i"
        using j hi by simp
      then show "j = nat i"
        using nth_eq_iff_index_eq [OF dist, of j "nat i"] j hi by simp
    next
      assume "j = nat i"
      then show "button_value (?same ! j) = ?sv" by simp
    qed
    with vj lo show "(v = ?sv) = (0 + int j = i)" by auto
  qed
  then show ?thesis
    using loop_by_index [OF buttons, of i 0 "[]"]
      loop_by_value [OF given buttons, of 0 "[]"] given
    by (simp add: webtest_submit_fields_def)
qed

theorem submit_fields_by_value_eq_by_index_witness:
  "list_all is_submit_button (same_named ''save'' (field_order two_save_buttons)) \<and>
   distinct (map button_value (same_named ''save'' (field_order two_save_buttons))) \<and>
   (0::int) \<le> 0 \<and> nat 0 < length (same_named ''save'' (field_order two_save_buttons)) \<and>
   button_value (same_named ''save'' (field_order two_save_buttons) ! nat 0) = PStr ''a'' \<and>
   webtest_submit_fields two_save_buttons (Some ''save'') None (PStr ''a'') =
     webtest_submit_fields two_save_buttons (Some ''save'') (Some 0) PNone"
proof -
  have b: "\<forall>f \<in> set (same_named ''save'' (field_order two_save_buttons)). is_submit_button f"
    by (simp add: two_save_buttons_def same_named_def is_submit_button_def Submit_def)
  have d: "distinct (map button_value (same_named ''save'' (field_order two_save_buttons)))"
    by (simp add: two_save_buttons_def same_named_def button_value_def Submit_def)
  have h: "nat 0 < length (same_named ''save'' (field_order two_save_buttons))"
    by (simp add: two_save_buttons_def same_named_def)
  have g: "button_value (same_named ''save'' (field_order two_save_buttons) ! nat 0) = PStr ''a''"
    by (simp add: two_save_buttons_def same_named_def button_value_def Submit_def)
  have g': "button_value (same_named ''save'' (field_order two_save_buttons) ! nat 0) \<noteq> PNone"
    using g by simp
  show ?thesis
    using submit_fields_by_value_eq_by_index [OF b d _ h g'] b d h g
    by (simp add: list_all_iff)
qed

text \<open>
  A button without a value submits \<^verbatim>\<open>None\<close>, and \<^verbatim>\<open>None\<close> as \<^verbatim>\<open>submit_value\<close> means that no
  value was given: the helper then falls back to the index 0. On two buttons named
  \<^verbatim>\<open>save\<close> with the values \<^verbatim>\<open>'a'\<close> and \<^verbatim>\<open>None\<close>, the index 1 submits the second button and
  the value of the second button submits the first. And selecting by value asks every
  field of the name for \<^verbatim>\<open>value_if_submitted()\<close>: on a button \<^verbatim>\<open>choice\<close> followed by a text
  field of the same name, the index 0 submits the button and the value of the button
  raises.
\<close>

theorem submit_fields_by_value_none_counterexample:
  "is_submit_button (Submit (PStr ''a'')) \<and> is_submit_button (Submit PNone) \<and>
   same_named ''save'' (field_order two_save_buttons) = [Submit (PStr ''a''), Submit PNone] \<and>
   button_value (Submit (PStr ''a'')) \<noteq> button_value (Submit PNone) \<and>
   webtest_submit_fields two_save_buttons (Some ''save'') (Some 1) PNone =
     Inr [(''title'', Val (PStr ''t'')), (''save'', Val PNone)] \<and>
   webtest_submit_fields two_save_buttons (Some ''save'') None
       (button_value (same_named ''save'' (field_order two_save_buttons) ! 1)) =
     Inr [(''title'', Val (PStr ''t'')), (''save'', Val (PStr ''a''))] \<and>
   webtest_submit_fields two_save_buttons (Some ''save'') None
       (button_value (same_named ''save'' (field_order two_save_buttons) ! 1)) \<noteq>
     webtest_submit_fields two_save_buttons (Some ''save'') (Some 1) PNone \<and>
   same_named ''choice'' (field_order choice_form) = [Submit (PStr ''Go''), Plain (PStr ''x'')] \<and>
   \<not> is_submit_button (Plain (PStr ''x'')) \<and>
   webtest_submit_fields choice_form (Some ''choice'') (Some 0) PNone =
     Inr [(''choice'', Val (PStr ''Go''))] \<and>
   webtest_submit_fields choice_form (Some ''choice'') None (PStr ''Go'') = Inl AttributeError"
  by (simp add: two_save_buttons_def choice_form_def same_named_def is_submit_button_def
      Submit_def Plain_def button_value_def webtest_submit_fields_def submit_branch_def
      other_branch_def)

subsection \<open>The parameter conflict\<close>

text \<open>
  C3. With both an index and a submit value given, \<^verbatim>\<open>webtest_submit_fields\<close> raises
  \<^verbatim>\<open>ValueError\<close>, whatever the form and the name are: no field is looked at and no
  entry is produced.
\<close>

theorem submit_fields_index_and_value_rejected:
  "submit_value \<noteq> PNone \<Longrightarrow>
   webtest_submit_fields form name (Some i) submit_value = Inl ValueError"
  by (simp add: webtest_submit_fields_def)

theorem submit_fields_index_and_value_rejected_witness:
  "PStr ''Save'' \<noteq> PNone \<and>
   webtest_submit_fields edit_form (Some ''save'') (Some 0) (PStr ''Save'') = Inl ValueError"
  using submit_fields_index_and_value_rejected [of "PStr ''Save''" edit_form "Some ''save''" 0]
  by simp

subsection \<open>The auth helper\<close>

text \<open>
  C4. When the context lacks the key \<^verbatim>\<open>user\<close> or the key \<^verbatim>\<open>model\<close>, \<^verbatim>\<open>call_auth\<close> fails
  with an assertion error that does not depend on the auth module, and leaves the
  context as it is: no auth function has been called. When both keys are there, the
  result is that of the named auth function on the context and the data dict (or the
  \<^verbatim>\<open>AttributeError\<close> of a name the module does not have).
\<close>

theorem call_auth_requires_user_and_model:
  "(context ''user'' = None \<or> context ''model'' = None \<longrightarrow>
      (\<exists>msg. \<forall>module :: string \<rightharpoonup> 'r logic_function.
         call_auth module auth_name context kwargs = (Inl (AssertionError msg), context))) \<and>
   (context ''user'' \<noteq> None \<and> context ''model'' \<noteq> None \<longrightarrow>
      call_auth (auth_update :: string \<rightharpoonup> 'r logic_function) auth_name context kwargs =
        (case auth_update auth_name of
           None \<Rightarrow> (Inl AttributeError, context)
         | Some auth_function \<Rightarrow> auth_function context kwargs))"
  by (auto simp: call_auth_def)

theorem call_auth_requires_user_and_model_witness:
  "([''user'' \<mapsto> PStr ''fred''] ''user'' = None \<or> [''user'' \<mapsto> PStr ''fred''] ''model'' = None) \<and>
   (\<exists>msg. call_auth allow_all ''user_update'' [''user'' \<mapsto> PStr ''fred''] Map.empty =
      (Inl (AssertionError msg), [''user'' \<mapsto> PStr ''fred''])) \<and>
   [''user'' \<mapsto> PStr ''fred'', ''model'' \<mapsto> PObj ''model''] ''user'' \<noteq> None \<and>
   [''user'' \<mapsto> PStr ''fred'', ''model'' \<mapsto> PObj ''model''] ''model'' \<noteq> None \<and>
   call_auth allow_all ''user_update'' [''user'' \<mapsto> PStr ''fred'', ''model'' \<mapsto> PObj ''model'']
       Map.empty =
     (Inr True, [''user'' \<mapsto> PStr ''fred'', ''model'' \<mapsto> PObj ''model''])"
proof -
  have missing: "[''user'' \<mapsto> PStr ''fred''] ''user'' = None \<or>
      [''user'' \<mapsto> PStr ''fred''] ''model'' = None"
    by simp
  have present: "[''user'' \<mapsto> PStr ''fred'', ''model'' \<mapsto> PObj ''model''] ''user'' \<noteq> None \<and>
      [''user'' \<mapsto> PStr ''fred'', ''model'' \<mapsto> PObj ''model''] ''model'' \<noteq> None"
    by simp
  from call_auth_requires_user_and_model
    [of "[''user'' \<mapsto> PStr ''fred'']" "''user_update''" Map.empty allow_all] missing
  have 1: "\<exists>msg. call_auth allow_all ''user_update'' [''user'' \<mapsto> PStr ''fred''] Map.empty =
      (Inl (AssertionError msg), [''user'' \<mapsto> PStr ''fred''])"
    by blast
  from call_auth_requires_user_and_model
    [of "[''user'' \<mapsto> PStr ''fred'', ''model'' \<mapsto> PObj ''model'']" "''user_update''"
       Map.empty allow_all]
    present
  have 2: "call_auth allow_all ''user_update''
      [''user'' \<mapsto> PStr ''fred'', ''model'' \<mapsto> PObj ''model''] Map.empty =
     (Inr True, [''user'' \<mapsto> PStr ''fred'', ''model'' \<mapsto> PObj ''model''])"
    by (simp add: allow_all_def)
  from missing 1 present 2 show ?thesis by blast
qed

subsection \<open>The action helper\<close>

text \<open>
  C5. \<^verbatim>\<open>call_action\<close> calls the named action with the keyword arguments as data dict
  and with a context in which \<^verbatim>\<open>user\<close> is the caller's value or else \<^verbatim>\<open>'127.0.0.1'\<close>,
  \<^verbatim>\<open>ignore_auth\<close> is the caller's value or else \<^verbatim>\<open>True\<close>, every key the caller supplied has
  the caller's value and there is no further key; the caller's dict is the empty one when
  no context is given. The result is what the action returns or raises (or what
  \<^verbatim>\<open>get_action\<close> raises).
\<close>

theorem call_action_defaults:
  "\<exists>ctx.
     (let given = (case context of None \<Rightarrow> Map.empty | Some c \<Rightarrow> c)
      in ctx ''user'' =
           Some (case given ''user'' of None \<Rightarrow> PStr ''127.0.0.1'' | Some u \<Rightarrow> u) \<and>
         ctx ''ignore_auth'' =
           Some (case given ''ignore_auth'' of None \<Rightarrow> PBool True | Some b \<Rightarrow> b) \<and>
         (\<forall>k \<in> dom given. ctx k = given k) \<and>
         dom ctx = dom given \<union> {''user'', ''ignore_auth''}) \<and>
     fst (call_action get_action action_name context kwargs) =
       (case get_action action_name of
          Inl e \<Rightarrow> Inl e
        | Inr action \<Rightarrow> fst (action ctx kwargs))"
proof -
  let ?given = "case context of None \<Rightarrow> Map.empty | Some c \<Rightarrow> c"
  let ?ctx = "action_context context"
  have 1: "?ctx ''user'' =
      Some (case ?given ''user'' of None \<Rightarrow> PStr ''127.0.0.1'' | Some u \<Rightarrow> u)"
    by (simp add: action_context_apply)
  have 2: "?ctx ''ignore_auth'' =
      Some (case ?given ''ignore_auth'' of None \<Rightarrow> PBool True | Some b \<Rightarrow> b)"
    by (simp add: action_context_apply)
  have 3: "\<forall>k \<in> dom ?given. ?ctx k = ?given k"
    by (auto simp: action_context_apply)
  have 4: "dom ?ctx = dom ?given \<union> {''user'', ''ignore_auth''}"
    by (auto simp: action_context_apply dom_def split: if_splits)
  have 5: "fst (call_action get_action action_name context kwargs) =
           (case get_action action_name of
              Inl e \<Rightarrow> Inl e
            | Inr action \<Rightarrow> fst (action ?ctx kwargs))"
    by (simp add: call_action_unfold split: sum.splits)
  from 1 2 3 4 5 show ?thesis unfolding Let_def by blast
qed

theorem call_action_defaults_witness:
  "''model'' \<in> dom [''model'' \<mapsto> PObj ''model''] \<and>
   fst (call_action show_user ''user_show'' (Some [''model'' \<mapsto> PObj ''model'']) Map.empty) =
     Inr (Some (PStr ''127.0.0.1''), Some (PObj ''model''))"
  using call_action_defaults [of "Some [''model'' \<mapsto> PObj ''model'']" show_user "''user_show''"
      Map.empty]
  by (elim exE conjE) (simp add: Let_def show_user_def)

text \<open>
  C9, as amended. \<^verbatim>\<open>call_action\<close> works on the caller's dict, not on a copy: the context
  handed to the action is the caller's dict with \<^verbatim>\<open>user\<close> and \<^verbatim>\<open>ignore_auth\<close> set (to the
  defaults when they were absent) and every other key as it was, and the caller's dict
  after the call, returned or raised, is that dict as the action leaves it (that dict
  itself when \<^verbatim>\<open>get_action\<close> raises). So the caller's dict has the two entries after the
  call whenever the action leaves them alone.
\<close>

theorem call_action_mutates_context:
  "\<exists>passed.
     passed ''user'' =
       Some (case context ''user'' of None \<Rightarrow> PStr ''127.0.0.1'' | Some u \<Rightarrow> u) \<and>
     passed ''ignore_auth'' =
       Some (case context ''ignore_auth'' of None \<Rightarrow> PBool True | Some b \<Rightarrow> b) \<and>
     (\<forall>k. k \<noteq> ''user'' \<longrightarrow> k \<noteq> ''ignore_auth'' \<longrightarrow> passed k = context k) \<and>
     snd (call_action get_action action_name (Some context) kwargs) =
       Some (case get_action action_name of
               Inl e \<Rightarrow> passed
             | Inr action \<Rightarrow> snd (action passed kwargs)) \<and>
     ((\<forall>action. get_action action_name = Inr action \<longrightarrow>
          snd (action passed kwargs) ''user'' = passed ''user'' \<and>
          snd (action passed kwargs) ''ignore_auth'' = passed ''ignore_auth'') \<longrightarrow>
      (\<exists>after. snd (call_action get_action action_name (Some context) kwargs) = Some after \<and>
         after ''user'' =
           Some (case context ''user'' of None \<Rightarrow> PStr ''127.0.0.1'' | Some u \<Rightarrow> u) \<and>
         after ''ignore_auth'' =
           Some (case context ''ignore_auth'' of None \<Rightarrow> PBool True | Some b \<Rightarrow> b)))"
proof -
  let ?ctx = "action_context (Some context)"
  have 1: "?ctx ''user'' = Some (case context ''user'' of None \<Rightarrow> PStr ''127.0.0.1'' | Some u \<Rightarrow> u)"
    by (simp add: action_context_apply)
  have 2: "?ctx ''ignore_auth'' =
      Some (case context ''ignore_auth'' of None \<Rightarrow> PBool True | Some b \<Rightarrow> b)"
    by (simp add: action_context_apply)
  have 3: "\<forall>k. k \<noteq> ''user'' \<longrightarrow> k \<noteq> ''ignore_auth'' \<longrightarrow> ?ctx k = context k"
    by (simp add: action_context_apply)
  have 4: "snd (call_action get_action action_name (Some context) kwargs) =
       Some (case get_action action_name of
               Inl e \<Rightarrow> ?ctx
             | Inr action \<Rightarrow> snd (action ?ctx kwargs))"
    by (simp add: call_action_unfold split: sum.splits)
  have 5: "\<exists>after. snd (call_action get_action action_name (Some context) kwargs) = Some after \<and>
         after ''user'' =
           Some (case context ''user'' of None \<Rightarrow> PStr ''127.0.0.1'' | Some u \<Rightarrow> u) \<and>
         after ''ignore_auth'' =
           Some (case context ''ignore_auth'' of None \<Rightarrow> PBool True | Some b \<Rightarrow> b)"
    if "\<forall>action. get_action action_name = Inr action \<longrightarrow>
          snd (action ?ctx kwargs) ''user'' = ?ctx ''user'' \<and>
          snd (action ?ctx kwargs) ''ignore_auth'' = ?ctx ''ignore_auth''"
    using that 1 2 4 by (cases "get_action action_name") auto
  from 1 2 3 4 5 show ?thesis by blast
qed

theorem call_action_mutates_context_witness:
  "\<exists>after. snd (call_action show_user ''user_show'' (Some [''model'' \<mapsto> PObj ''model''])
                  Map.empty) = Some after \<and>
     after ''user'' = Some (PStr ''127.0.0.1'') \<and>
     after ''ignore_auth'' = Some (PBool True)"
  using call_action_mutates_context [of "[''model'' \<mapsto> PObj ''model'']" show_user
      "''user_show''" Map.empty]
  by (elim exE conjE) (simp add: show_user_def)

text \<open>
  The action gets the caller's dict and may do anything to it. After an action that
  deletes \<^verbatim>\<open>user\<close> from the context, the caller's dict has no \<^verbatim>\<open>user\<close>, though the helper had
  set \<^verbatim>\<open>ignore_auth\<close> in it.
\<close>

theorem call_action_dropped_user_counterexample:
  "snd (call_action drop_user ''user_delete'' (Some [''user'' \<mapsto> PStr ''fred'']) Map.empty) \<noteq>
     None \<and>
   the (snd (call_action drop_user ''user_delete'' (Some [''user'' \<mapsto> PStr ''fred''])
          Map.empty)) ''user'' = None \<and>
   the (snd (call_action drop_user ''user_delete'' (Some [''user'' \<mapsto> PStr ''fred''])
          Map.empty)) ''ignore_auth'' = Some (PBool True)"
  by (simp add: call_action_def drop_user_def setdefault_def)

subsection \<open>Fields outside the submit branch\<close>

text \<open>
  C6, as amended. When \<^verbatim>\<open>webtest_submit_fields\<close> returns a list, the list is made in
  declaration order of what each field adds. A named field with another name than the
  submit name adds nothing for a value of \<^verbatim>\<open>None\<close>, the field object for a file upload,
  the entries \<open>(name, a)\<close>, \<open>(name, b)\<close>, ... in that order for a list \<open>[a, b, ...]\<close>, and the
  one entry \<open>(name, value)\<close> otherwise. A field with the submit name adds what
  \<^verbatim>\<open>value_if_submitted()\<close> gives when it is the chosen one (by its position among the fields
  of that name, or by that value being the submit value) and nothing otherwise, whatever
  its class and its own value are: every entry under the submit name is the submitted
  value of a field of that name.
\<close>

theorem submit_fields_entries:
  assumes "webtest_submit_fields form submit_name index submit_value = Inr out"
  shows "out =
      (case submit_name of
         None \<Rightarrow> plain_entries (field_order form)
       | Some name \<Rightarrow>
           collect name
             (\<lambda>c v. (if index = None \<and> submit_value = PNone then Some 0 else index) = Some c \<or>
                    (submit_value \<noteq> PNone \<and> v = submit_value))
             (field_order form) 0) \<and>
     filter (\<lambda>e. Some (fst e) \<noteq> submit_name) out =
       concat (map (\<lambda>(n, f). case n of
                       None \<Rightarrow> []
                     | Some m \<Rightarrow>
                         if submit_name = Some m \<or> value_attr f = PNone then []
                         else if is_File f then [(m, FieldObj f)]
                         else (case value_attr f of
                                 PList items \<Rightarrow> map (\<lambda>item. (m, Val item)) items
                               | v \<Rightarrow> [(m, Val v)]))
                (field_order form)) \<and>
     (\<forall>e \<in> set out. Some (fst e) = submit_name \<longrightarrow>
        (\<exists>f \<in> set (same_named (fst e) (field_order form)).
           \<exists>v. value_if_submitted f = Inr v \<and> snd e = Val v))"
proof -
  let ?idx = "if index = None \<and> submit_value = PNone then Some 0 else index"
  from assms have guard: "?idx = None \<or> submit_value = PNone"
    by (auto simp: webtest_submit_fields_def split: if_splits)
  from assms have run: "submit_loop submit_name ?idx submit_value (field_order form) 0 [] = Inr out"
    by (auto simp: webtest_submit_fields_def Let_def split: if_splits)
  have full: "out =
      (case submit_name of
         None \<Rightarrow> plain_entries (field_order form)
       | Some name \<Rightarrow>
           collect name (\<lambda>c v. ?idx = Some c \<or> (submit_value \<noteq> PNone \<and> v = submit_value))
             (field_order form) 0)"
  proof (cases submit_name)
    case None
    with run show ?thesis by (simp add: loop_without_name)
  next
    case (Some name)
    with run loop_collect [OF _ guard, of name "field_order form" 0 "[]" out]
    show ?thesis by simp
  qed
  have same: "(\<lambda>(n, f). case n of None \<Rightarrow> []
                | Some m \<Rightarrow> if submit_name = Some m then [] else nonsubmit_entries m f) =
        (\<lambda>(n, f). case n of
                     None \<Rightarrow> []
                   | Some m \<Rightarrow>
                       if submit_name = Some m \<or> value_attr f = PNone then []
                       else if is_File f then [(m, FieldObj f)]
                       else (case value_attr f of
                               PList items \<Rightarrow> map (\<lambda>item. (m, Val item)) items
                             | v \<Rightarrow> [(m, Val v)]))"
    by (auto simp: fun_eq_iff nonsubmit_entries_def split: option.splits)
  have others: "filter (\<lambda>e. Some (fst e) \<noteq> submit_name) out =
       concat (map (\<lambda>(n, f). case n of
                       None \<Rightarrow> []
                     | Some m \<Rightarrow>
                         if submit_name = Some m \<or> value_attr f = PNone then []
                         else if is_File f then [(m, FieldObj f)]
                         else (case value_attr f of
                                 PList items \<Rightarrow> map (\<lambda>item. (m, Val item)) items
                               | v \<Rightarrow> [(m, Val v)]))
                (field_order form))"
    using loop_other_entries [OF run] by (simp add: same)
  have named: "\<exists>f \<in> set (same_named (fst e) (field_order form)).
           \<exists>v. value_if_submitted f = Inr v \<and> snd e = Val v"
    if e: "e \<in> set out" and n: "Some (fst e) = submit_name" for e
  proof -
    from n full have "out = collect (fst e)
        (\<lambda>c v. ?idx = Some c \<or> (submit_value \<noteq> PNone \<and> v = submit_value)) (field_order form) 0"
      by (cases submit_name) auto
    with e have "e \<in> set (collect (fst e)
        (\<lambda>c v. ?idx = Some c \<or> (submit_value \<noteq> PNone \<and> v = submit_value)) (field_order form) 0)"
      by simp
    from collect_named_entries [OF this] show ?thesis by simp
  qed
  from full others named show ?thesis by blast
qed

theorem submit_fields_entries_witness:
  "webtest_submit_fields edit_form (Some ''save'') (Some 1) PNone =
     Inr [(''title'', Val (PStr ''t'')), (''tags'', Val (PStr ''a'')), (''tags'', Val (PStr ''b'')),
          (''upload'', FieldObj (File (PStr ''f.txt''))), (''save'', Val (PStr ''Cancel''))] \<and>
   filter (\<lambda>e. Some (fst e) \<noteq> Some ''save'')
     [(''title'', Val (PStr ''t'')), (''tags'', Val (PStr ''a'')), (''tags'', Val (PStr ''b'')),
      (''upload'', FieldObj (File (PStr ''f.txt''))), (''save'', Val (PStr ''Cancel''))] =
     [(''title'', Val (PStr ''t'')), (''tags'', Val (PStr ''a'')), (''tags'', Val (PStr ''b'')),
      (''upload'', FieldObj (File (PStr ''f.txt'')))] \<and>
   (\<exists>f \<in> set (same_named ''save'' (field_order edit_form)).
      value_if_submitted f = Inr (PStr ''Cancel''))"
proof -
  let ?out = "[(''title'', Val (PStr ''t'')), (''tags'', Val (PStr ''a'')),
      (''tags'', Val (PStr ''b'')), (''upload'', FieldObj (File (PStr ''f.txt''))),
      (''save'', Val (PStr ''Cancel''))]"
  have run: "webtest_submit_fields edit_form (Some ''save'') (Some 1) PNone = Inr ?out"
    by (simp add: edit_form_def webtest_submit_fields_def submit_branch_def other_branch_def
        Submit_def Plain_def File_def)
  note all = submit_fields_entries [OF run]
  from all [THEN conjunct2, THEN conjunct1]
  have others: "filter (\<lambda>e. Some (fst e) \<noteq> Some ''save'') ?out =
      [(''title'', Val (PStr ''t'')), (''tags'', Val (PStr ''a'')), (''tags'', Val (PStr ''b'')),
       (''upload'', FieldObj (File (PStr ''f.txt'')))]"
    by (simp add: edit_form_def Submit_def Plain_def File_def)
  have "(''save'', Val (PStr ''Cancel'')) \<in> set ?out" by simp
  from bspec [OF all [THEN conjunct2, THEN conjunct2] this]
  have named: "\<exists>f \<in> set (same_named ''save'' (field_order edit_form)).
      value_if_submitted f = Inr (PStr ''Cancel'')"
    by simp
  from run others named show ?thesis by blast
qed

text \<open>
  A field that has the submit name goes through the submit branch whatever its class
  is, since the index counts all the fields of that name. On a form with a list-valued
  field and a submit button that share the name \<^verbatim>\<open>choice\<close>, the index 1 submits the button,
  and the field, which is no submit button, is counted and adds nothing.
\<close>

theorem submit_fields_same_named_list_counterexample:
  "value_attr (Plain (PList [PStr ''a'', PStr ''b''])) = PList [PStr ''a'', PStr ''b''] \<and>
   \<not> is_submit_button (Plain (PList [PStr ''a'', PStr ''b''])) \<and>
   webtest_submit_fields
     \<lparr>field_order = [(Some ''choice'', Plain (PList [PStr ''a'', PStr ''b''])),
                     (Some ''choice'', Submit (PStr ''Go''))]\<rparr>
     (Some ''choice'') (Some 1) PNone = Inr [(''choice'', Val (PStr ''Go''))]"
  by (simp add: webtest_submit_fields_def submit_branch_def Plain_def Submit_def
      is_submit_button_def)



text \<open>
  C10. With no name, no index and no submit value, \<^verbatim>\<open>webtest_submit_fields\<close> returns
  the entries of the fields taken from their values alone: a submit button, whose value
  reads \<^verbatim>\<open>None\<close>, adds none (dropping the submit buttons from the form changes nothing),
  and the index, the default 0 or any other, selects nothing.
\<close>

theorem submit_fields_all_defaults:
  "webtest_submit_fields form None None PNone = Inr (plain_entries (field_order form)) \<and>
   plain_entries (filter (\<lambda>(n, f). \<not> is_submit_button f) (field_order form)) =
     plain_entries (field_order form) \<and>
   webtest_submit_fields form None (Some i) PNone = webtest_submit_fields form None None PNone"
  by (simp add: webtest_submit_fields_def loop_without_name plain_entries_drop_buttons)

subsection \<open>The configuration snapshot\<close>

text \<open>
  C7. Whatever \<^verbatim>\<open>_apply_config_changes\<close> and the test application factory do to the
  configuration in \<^verbatim>\<open>setup_class\<close>, and whatever keys are set, changed or deleted
  afterwards, \<^verbatim>\<open>teardown_class\<close> succeeds and leaves the configuration equal to the
  snapshot taken at the start of \<^verbatim>\<open>setup_class\<close>.
\<close>

theorem teardown_restores_config:
  "fst (teardown_class (mutate_config ops (snd (setup_class apply_config_changes make_app TestApp w)))) = Inr () \<and>
   config (snd (teardown_class
      (mutate_config ops (snd (setup_class apply_config_changes make_app TestApp w))))) = config w"
  by (simp add: teardown_class_def Let_def mutate_config_snapshot setup_class_snapshot)

end
